theory Spec2Isabelle
  imports Main
begin

section \<open>The matching engine of galeshapley.ts\<close>

text \<open>
  The theory embeds \<^verbatim>\<open>src/galeshapley.ts\<close>: the class \<^verbatim>\<open>MatchContainer\<close>
  (a wrapped item with its current match and its cursor into the candidate list) and the
  class \<^verbatim>\<open>Matcher\<close> (the proposal rounds, the eviction pass and the result list).

  Objects mutated in place become records that are passed through and returned. The
  containers of a matcher live in two arrays and refer to each other by index only, so
  an array of records with functional update is the store. An exception is a value of
  \<open>error\<close>: \<open>NonConvergence\<close> is the \<^verbatim>\<open>Error("Max loop count reached (infinite loop?)")\<close>
  thrown by \<^verbatim>\<open>match()\<close>, \<open>TypeError\<close> is what JavaScript throws when a property of
  \<^verbatim>\<open>undefined\<close> is read, which is what an array read out of range leads to in this code.
  A function that can throw returns the error (if any) beside the state it leaves behind,
  since the caller keeps the engine object after a throw.

  The injected preference function is a total HOL function of its three arguments; its
  second argument is \<open>None\<close> for JavaScript's \<^verbatim>\<open>null\<close>. The field \<open>calls\<close> of the
  matcher is not a field of the source class: it records, in order, the arguments of
  every invocation of the preference function, so that statements about when that
  function is invoked can be made.
\<close>

datatype error = NonConvergence | TypeError

subsection \<open>MatchContainer\<close>

record 'a MatchContainer =
  obj :: 'a
  match :: "nat option"
  currentCandidate :: nat
  candidates :: "'a list"

definition MatchContainer_new :: "'a \<Rightarrow> 'a list \<Rightarrow> 'a MatchContainer" where
  "MatchContainer_new ob cands =
     \<lparr>obj = ob, match = None, currentCandidate = 0, candidates = cands\<rparr>"

text \<open>\<^verbatim>\<open>nextCandidate()\<close>: the returned number and the container after the call.\<close>

definition nextCandidate :: "'a MatchContainer \<Rightarrow> int \<times> 'a MatchContainer" where
  "nextCandidate c =
     (if currentCandidate c \<ge> length (candidates c) then (- 1, c)
      else (int (currentCandidate c), c\<lparr>currentCandidate := currentCandidate c + 1\<rparr>))"

text \<open>\<open>k\<close> successive calls of \<^verbatim>\<open>nextCandidate()\<close> on one container, as in the
  test \<^verbatim>\<open>matcherSequence\<close>: the returned numbers in order, and the container at the end.\<close>

fun nextCandidate_calls :: "nat \<Rightarrow> 'a MatchContainer \<Rightarrow> int list \<times> 'a MatchContainer" where
  "nextCandidate_calls 0 c = ([], c)"
| "nextCandidate_calls (Suc k) c =
     (case nextCandidate c of (out, c') \<Rightarrow>
        (case nextCandidate_calls k c' of (outs, c'') \<Rightarrow> (out # outs, c'')))"

subsection \<open>Matcher\<close>

record 'a Matcher =
  wrappedProfiles :: "'a MatchContainer list"
  wrappedVacancies :: "'a MatchContainer list"
  vacancyPrefersProfile :: "'a \<Rightarrow> 'a option \<Rightarrow> 'a \<Rightarrow> bool"
  maxLoopCount :: int
  "done" :: bool
  calls :: "('a \<times> 'a option \<times> 'a) list"

definition Matcher_new ::
  "'a list \<Rightarrow> 'a list \<Rightarrow> ('a \<Rightarrow> 'a option \<Rightarrow> 'a \<Rightarrow> bool) \<Rightarrow> int \<Rightarrow> 'a Matcher" where
  "Matcher_new profiles vacancies prefers maxLoops =
     \<lparr>wrappedProfiles = map (\<lambda>item. MatchContainer_new item vacancies) profiles,
      wrappedVacancies = map (\<lambda>item. MatchContainer_new item profiles) vacancies,
      vacancyPrefersProfile = prefers,
      maxLoopCount = maxLoops,
      done = False,
      calls = []\<rparr>"

text \<open>An array read \<^verbatim>\<open>xs[i]\<close>: \<open>None\<close> stands for \<^verbatim>\<open>undefined\<close>.\<close>

definition index :: "'b list \<Rightarrow> nat \<Rightarrow> 'b option" where
  "index xs i = (if i < length xs then Some (xs ! i) else None)"

text \<open>An invocation of \<^verbatim>\<open>this.vacancyPrefersProfile\<close>: the answer, and the matcher with
  the invocation recorded.\<close>

definition call_prefers ::
  "'a Matcher \<Rightarrow> 'a \<Rightarrow> 'a option \<Rightarrow> 'a \<Rightarrow> bool \<times> 'a Matcher" where
  "call_prefers m vacancy currentMatch newMatch =
     (vacancyPrefersProfile m vacancy currentMatch newMatch,
      m\<lparr>calls := calls m @ [(vacancy, currentMatch, newMatch)]\<rparr>)"

text \<open>\<^verbatim>\<open>Array.prototype.forEach\<close> (and \<^verbatim>\<open>map\<close> used for its effects) over the indices
  of an array whose length does not change: the callback runs index by index, and a
  throw ends the iteration.\<close>

fun forEach :: "(nat \<Rightarrow> 's \<Rightarrow> error option \<times> 's) \<Rightarrow> nat list \<Rightarrow> 's \<Rightarrow> error option \<times> 's" where
  "forEach f [] s = (None, s)"
| "forEach f (i # idxs) s =
     (case f i s of
        (Some e, s') \<Rightarrow> (Some e, s')
      | (None, s') \<Rightarrow> forEach f idxs s')"

text \<open>The callback of the \<^verbatim>\<open>forEach\<close> in \<^verbatim>\<open>match()\<close> (lines 118 to 149): the
  proposal of the profile at \<open>profileIndex\<close>. Reading \<^verbatim>\<open>candidateVacancy.match\<close> of
  an \<^verbatim>\<open>undefined\<close> vacancy throws; an \<^verbatim>\<open>undefined\<close> \<open>currentMatch\<close> passes the
  test \<^verbatim>\<open>currentMatch !== null\<close> and throws at \<^verbatim>\<open>currentMatch.obj\<close>.\<close>

definition propose :: "nat \<Rightarrow> 'a Matcher \<Rightarrow> error option \<times> 'a Matcher" where
  "propose profileIndex m =
     (case nextCandidate (wrappedProfiles m ! profileIndex) of
        (candidateVacancyIndex, wrappedProfile) \<Rightarrow>
     let m1 = m\<lparr>wrappedProfiles := (wrappedProfiles m)[profileIndex := wrappedProfile]\<rparr> in
     if candidateVacancyIndex = - 1 then (None, m1)
     else
       let vi = nat candidateVacancyIndex in
       (case index (wrappedVacancies m1) vi of
          None \<Rightarrow> (Some TypeError, m1)
        | Some candidateVacancy \<Rightarrow>
            (case match candidateVacancy of
               None \<Rightarrow>
                 let m2 = m1\<lparr>done := False\<rparr> in
                 if match wrappedProfile = None
                 then (None,
                   m2\<lparr>wrappedVacancies :=
                        (wrappedVacancies m2)[vi := candidateVacancy\<lparr>match := Some profileIndex\<rparr>],
                      wrappedProfiles :=
                        (wrappedProfiles m2)[profileIndex := wrappedProfile\<lparr>match := Some vi\<rparr>]\<rparr>)
                 else (None, m2)
             | Some cm \<Rightarrow>
                 (case index (wrappedProfiles m1) cm of
                    None \<Rightarrow> (Some TypeError, m1)
                  | Some currentMatch \<Rightarrow>
                      (case call_prefers m1 (obj candidateVacancy) (Some (obj currentMatch))
                              (obj wrappedProfile) of
                         (accepted, m2) \<Rightarrow>
                           if accepted then
                             let m3 = m2\<lparr>done := False\<rparr>;
                                 m4 = m3\<lparr>wrappedProfiles :=
                                        (wrappedProfiles m3)[cm := currentMatch\<lparr>match := None\<rparr>]\<rparr>;
                                 m5 = m4\<lparr>wrappedVacancies :=
                                        (wrappedVacancies m4)
                                          [vi := candidateVacancy\<lparr>match := Some profileIndex\<rparr>]\<rparr>
                             in (None,
                               m5\<lparr>wrappedProfiles :=
                                    (wrappedProfiles m5)
                                      [profileIndex :=
                                         (wrappedProfiles m5 ! profileIndex)\<lparr>match := Some vi\<rparr>]\<rparr>)
                           else (None, m2))))))"

text \<open>The body of the \<^verbatim>\<open>while\<close> loop of \<^verbatim>\<open>match()\<close> without the counter: one round.\<close>

definition match_round :: "'a Matcher \<Rightarrow> error option \<times> 'a Matcher" where
  "match_round m =
     (let m1 = m\<lparr>done := True\<rparr>
      in forEach propose [0 ..< length (wrappedProfiles m1)] m1)"

text \<open>The \<^verbatim>\<open>while\<close> loop of \<^verbatim>\<open>match()\<close> (lines 112 to 151). Nothing in the text of
  the loop bounds the number of rounds when \<^verbatim>\<open>maxLoopCount <= 0\<close>, so the loop is a
  partial function: \<open>None\<close> is a loop that never ends. Otherwise it gives the error
  thrown inside a round (if any), the final \<^verbatim>\<open>loopCount\<close> and the matcher.\<close>

partial_function (option) match_loop ::
  "nat \<Rightarrow> 'a Matcher \<Rightarrow> (error option \<times> nat \<times> 'a Matcher) option" where
  "match_loop loopCount m =
     (if \<not> done m \<and> (maxLoopCount m \<le> 0 \<or> int loopCount < maxLoopCount m)
      then (case match_round m of
              (Some e, m') \<Rightarrow> Some (Some e, loopCount, m')
            | (None, m') \<Rightarrow> match_loop (loopCount + 1) m')
      else Some (None, loopCount, m))"

declare match_loop.simps [code]

text \<open>The callback of the \<^verbatim>\<open>map\<close> in \<^verbatim>\<open>evictUnmatching()\<close>, for the vacancy at
  index \<open>i\<close>.\<close>

definition evict :: "nat \<Rightarrow> 'a Matcher \<Rightarrow> error option \<times> 'a Matcher" where
  "evict i m =
     (let vacancy = wrappedVacancies m ! i in
      case match vacancy of
        None \<Rightarrow> (None, m)
      | Some pm \<Rightarrow>
          (case index (wrappedProfiles m) pm of
             None \<Rightarrow> (Some TypeError, m)
           | Some matchedProfile \<Rightarrow>
               (case call_prefers m (obj vacancy) (Some (obj matchedProfile)) (obj matchedProfile) of
                  (accepted, m1) \<Rightarrow>
                    if \<not> accepted
                    then (None,
                      m1\<lparr>wrappedVacancies := (wrappedVacancies m1)[i := vacancy\<lparr>match := None\<rparr>],
                         wrappedProfiles :=
                           (wrappedProfiles m1)[pm := matchedProfile\<lparr>match := None\<rparr>]\<rparr>)
                    else (None, m1))))"

definition evictUnmatching :: "'a Matcher \<Rightarrow> error option \<times> 'a Matcher" where
  "evictUnmatching m = forEach evict [0 ..< length (wrappedVacancies m)] m"

text \<open>\<^verbatim>\<open>match()\<close>: the rounds, the throw when the loop ended with \<^verbatim>\<open>done\<close> false,
  then the eviction pass.\<close>

definition Matcher_match :: "'a Matcher \<Rightarrow> (error option \<times> 'a Matcher) option" where
  "Matcher_match m =
     (case match_loop 0 m of
        None \<Rightarrow> None
      | Some (Some e, loopCount, m') \<Rightarrow> Some (Some e, m')
      | Some (None, loopCount, m') \<Rightarrow>
          if \<not> done m' then Some (Some NonConvergence, m')
          else Some (evictUnmatching m'))"

text \<open>The pairs pushed by the \<^verbatim>\<open>map\<close> in \<^verbatim>\<open>getMatches()\<close>, over the vacancies in
  index order.\<close>

fun collect :: "'a Matcher \<Rightarrow> 'a MatchContainer list \<Rightarrow> error + ('a \<times> 'a) list" where
  "collect m [] = Inr []"
| "collect m (vacancy # rest) =
     (case match vacancy of
        None \<Rightarrow> collect m rest
      | Some pm \<Rightarrow>
          (case index (wrappedProfiles m) pm of
             None \<Rightarrow> Inl TypeError
           | Some p \<Rightarrow>
               (case collect m rest of
                  Inl e \<Rightarrow> Inl e
                | Inr output \<Rightarrow> Inr ((obj vacancy, obj p) # output))))"

text \<open>\<^verbatim>\<open>getMatches()\<close>: what the call returns or throws, and the matcher afterwards.\<close>

definition getMatches :: "'a Matcher \<Rightarrow> ((error + ('a \<times> 'a) list) \<times> 'a Matcher) option" where
  "getMatches m =
     (case (if \<not> done m then Matcher_match m else Some (None, m)) of
        None \<Rightarrow> None
      | Some (Some e, m') \<Rightarrow> Some (Inl e, m')
      | Some (None, m') \<Rightarrow> Some (collect m' (wrappedVacancies m'), m'))"

subsection \<open>Runs of rounds, and the invariants of a run\<close>

text \<open>The matcher after \<open>k\<close> rounds run one after the other, whatever the loop
  condition says: the reference against which the loop is described.\<close>

fun iterate_rounds :: "nat \<Rightarrow> 'a Matcher \<Rightarrow> 'a Matcher" where
  "iterate_rounds 0 m = m"
| "iterate_rounds (Suc k) m = snd (match_round (iterate_rounds k m))"

text \<open>Every index stored in the matcher is in range: there are \<open>nP\<close> profile
  containers and \<open>nV\<close> vacancy containers, every profile has \<open>nV\<close> candidates, and a
  vacancy's match is the index of a profile.\<close>

definition in_range :: "nat \<Rightarrow> nat \<Rightarrow> 'a Matcher \<Rightarrow> bool" where
  "in_range nP nV m \<longleftrightarrow>
     length (wrappedProfiles m) = nP \<and> length (wrappedVacancies m) = nV \<and>
     (\<forall>t < nP. length (candidates (wrappedProfiles m ! t)) = nV) \<and>
     (\<forall>t < nV. \<forall>q. match (wrappedVacancies m ! t) = Some q \<longrightarrow> q < nP)"

text \<open>In the middle of a round that started with every cursor at \<open>c\<close>, when the
  profiles before index \<open>j\<close> have proposed: their cursors have moved on, the vacancies
  after \<open>c\<close> have not been proposed to yet, and \<^verbatim>\<open>done\<close> is still true only if nobody
  has proposed to a vacancy.\<close>

definition mid_round :: "nat \<Rightarrow> nat \<Rightarrow> nat \<Rightarrow> nat \<Rightarrow> 'a Matcher \<Rightarrow> bool" where
  "mid_round nP nV c j m \<longleftrightarrow>
     in_range nP nV m \<and> c \<le> nV \<and>
     (\<forall>t < nP. currentCandidate (wrappedProfiles m ! t) = (if t < j then min (c + 1) nV else c)) \<and>
     (\<forall>t < nV. c < t \<or> (j = 0 \<and> c \<le> t) \<longrightarrow> match (wrappedVacancies m ! t) = None) \<and>
     (done m \<longleftrightarrow> j = 0 \<or> c = nV)"

text \<open>After \<open>k\<close> rounds on a new matcher.\<close>

definition after_rounds :: "nat \<Rightarrow> nat \<Rightarrow> nat \<Rightarrow> 'a Matcher \<Rightarrow> bool" where
  "after_rounds nP nV k m \<longleftrightarrow>
     in_range nP nV m \<and>
     (\<forall>t < nP. currentCandidate (wrappedProfiles m ! t) = min k nV) \<and>
     (\<forall>t < nV. min k nV \<le> t \<longrightarrow> match (wrappedVacancies m ! t) = None) \<and>
     (done m \<longleftrightarrow> 0 < k \<and> (nP = 0 \<or> nV < k))"

text \<open>A vacancy that holds a match which the preference function endorses in the
  self-comparison of the eviction pass (or that holds none).\<close>

definition endorsed :: "'a Matcher \<Rightarrow> 'a MatchContainer \<Rightarrow> bool" where
  "endorsed m vacancy \<longleftrightarrow>
     (case match vacancy of
        None \<Rightarrow> True
      | Some q \<Rightarrow> q < length (wrappedProfiles m) \<and>
          vacancyPrefersProfile m (obj vacancy) (Some (obj (wrappedProfiles m ! q)))
            (obj (wrappedProfiles m ! q)))"

text \<open>What the eviction pass, run on the matcher \<open>m1\<close> and ending in \<open>m'\<close>, has done
  for the vacancy at index \<open>i\<close>: a vacancy without a match still has none; a vacancy whose
  match the preference function endorses keeps it; and for a vacancy whose match it
  refuses, both the vacancy's match and the match of that profile have been cleared.\<close>

definition evicted :: "'a Matcher \<Rightarrow> 'a Matcher \<Rightarrow> nat \<Rightarrow> bool" where
  "evicted m1 m' i \<longleftrightarrow>
     (case match (wrappedVacancies m1 ! i) of
        None \<Rightarrow> match (wrappedVacancies m' ! i) = None
      | Some pm \<Rightarrow>
          pm < length (wrappedProfiles m1) \<and>
          (if vacancyPrefersProfile m1 (obj (wrappedVacancies m1 ! i))
               (Some (obj (wrappedProfiles m1 ! pm))) (obj (wrappedProfiles m1 ! pm))
          then match (wrappedVacancies m' ! i) = Some pm
           else match (wrappedVacancies m' ! i) = None \<and> match (wrappedProfiles m' ! pm) = None))"

text \<open>In the middle of the eviction pass that started in \<open>m1\<close>, when the vacancies
  before index \<open>j\<close> have been visited.\<close>

definition evict_inv :: "'a Matcher \<Rightarrow> nat \<Rightarrow> 'a Matcher \<Rightarrow> bool" where
  "evict_inv m1 j s \<longleftrightarrow>
     length (wrappedVacancies s) = length (wrappedVacancies m1) \<and>
     length (wrappedProfiles s) = length (wrappedProfiles m1) \<and>
     vacancyPrefersProfile s = vacancyPrefersProfile m1 \<and>
     (\<forall>t < length (wrappedVacancies m1). obj (wrappedVacancies s ! t) = obj (wrappedVacancies m1 ! t)) \<and>
     (\<forall>q < length (wrappedProfiles m1). obj (wrappedProfiles s ! q) = obj (wrappedProfiles m1 ! q)) \<and>
     (\<forall>t < length (wrappedVacancies m1). j \<le> t \<longrightarrow>
        match (wrappedVacancies s ! t) = match (wrappedVacancies m1 ! t)) \<and>
     (\<forall>t < j. evicted m1 s t)"

subsection \<open>Engines used as concrete inputs\<close>

text \<open>The preference function of the tests \<^verbatim>\<open>multimatch\<close> and \<^verbatim>\<open>simpleMatch\<close>
  (\<^verbatim>\<open>currentProfile === null || vacancy.want === newProfile.have\<close>), on items that
  are pairs \<open>(want, have)\<close>.\<close>

definition prefers_example ::
  "string \<times> string \<Rightarrow> (string \<times> string) option \<Rightarrow> string \<times> string \<Rightarrow> bool" where
  "prefers_example vacancy currentProfile newProfile \<longleftrightarrow>
     currentProfile = None \<or> fst vacancy = snd newProfile"

text \<open>Two profiles and two vacancies; both vacancies want what the second profile has.\<close>

definition contested :: "(string \<times> string) Matcher" where
  "contested =
     Matcher_new [(''p'', ''y''), (''q'', ''x'')] [(''x'', ''a''), (''x'', ''b'')] prefers_example 0"

text \<open>One profile and two vacancies, with a preference function that always accepts.\<close>

definition one_two :: "nat Matcher" where
  "one_two = Matcher_new [1] [10, 20] (\<lambda>_ _ _. True) 0"

text \<open>One profile and one vacancy, the preference function that always accepts, and a
  cap of \<open>n\<close> rounds.\<close>

definition capped :: "nat \<Rightarrow> nat Matcher" where
  "capped n = Matcher_new [1] [10] (\<lambda>_ _ _. True) (int n)"

text \<open>The engine of the test \<^verbatim>\<open>multimatch\<close>: the third profile and the third
  vacancy have no complementary partner.\<close>

definition multimatch :: "(string \<times> string) Matcher" where
  "multimatch =
     Matcher_new [(''red'', ''blue''), (''yellow'', ''green''), (''purple'', ''teal'')]
       [(''blue'', ''red''), (''green'', ''yellow''), (''black'', ''white'')] prefers_example 10"

text \<open>One profile, two vacancies, the preference function that always accepts, and a
  cap of two rounds.\<close>

definition two_capped :: "nat Matcher" where
  "two_capped = Matcher_new [1] [10, 20] (\<lambda>_ _ _. True) 2"

section \<open>The candidate tracker\<close>

lemma nextCandidate_calls_general:
  "nextCandidate_calls k c =
     (map (\<lambda>i. if currentCandidate c + i < length (candidates c)
                 then int (currentCandidate c + i) else - 1) [0 ..< k],
      c\<lparr>currentCandidate := max (currentCandidate c)
                               (min (currentCandidate c + k) (length (candidates c)))\<rparr>)"
proof (induction k arbitrary: c)
  case 0
  show ?case by simp
next
  case (Suc k)
  show ?case
  proof (cases "currentCandidate c < length (candidates c)")
    case True
    then show ?thesis
      by (simp add: Suc nextCandidate_def map_upt_Suc max_def min_def del: upt_Suc)
  next
    case False
    then show ?thesis
      by (simp add: Suc nextCandidate_def map_upt_Suc max_def min_def del: upt_Suc)
  qed
qed

text \<open>
  Claim C6. On a container built over a candidate list of length \<open>n\<close>, the first \<open>k\<close>
  calls of \<^verbatim>\<open>nextCandidate()\<close> return, in order, \<open>0, 1, ..., n - 1\<close> and from then on
  \<open>- 1\<close>, which is no index; the function has no failing branch; and the cursor after
  \<open>k\<close> calls is \<open>min k n\<close>, so it never exceeds \<open>n\<close>.
\<close>

theorem nextCandidate_sequence:
  "nextCandidate_calls k (MatchContainer_new ob cands) =
     (map (\<lambda>i. if i < length cands then int i else - 1) [0 ..< k],
      (MatchContainer_new ob cands)\<lparr>currentCandidate := min k (length cands)\<rparr>)"
  by (simp add: nextCandidate_calls_general MatchContainer_new_def)

section \<open>Iteration over an array\<close>

lemma forEach_upt_total:
  assumes step: "\<And>j s. j < n \<Longrightarrow> P j s \<Longrightarrow> \<exists>s'. f j s = (None, s') \<and> P (Suc j) s'"
  shows "i \<le> n \<Longrightarrow> P i s \<Longrightarrow> \<exists>s'. forEach f [i ..< n] s = (None, s') \<and> P n s'"
proof (induction "n - i" arbitrary: i s)
  case 0
  then show ?case by simp
next
  case (Suc d)
  then have lt: "i < n" by simp
  from step [OF lt Suc.prems(2)] obtain s1 where s1: "f i s = (None, s1)" "P (Suc i) s1"
    by blast
  from Suc.hyps(2) lt have d: "d = n - Suc i" and le: "Suc i \<le> n" by simp_all
  from Suc.hyps(1) [OF d le s1(2)]
  obtain s' where "forEach f [Suc i ..< n] s1 = (None, s')" "P n s'"
    by blast
  with lt s1 show ?case by (simp add: upt_conv_Cons)
qed

lemma forEach_upt_partial:
  assumes step: "\<And>j s s'. j < n \<Longrightarrow> P j s \<Longrightarrow> f j s = (None, s') \<Longrightarrow> P (Suc j) s'"
  shows "i \<le> n \<Longrightarrow> P i s \<Longrightarrow> forEach f [i ..< n] s = (None, s') \<Longrightarrow> P n s'"
proof (induction "n - i" arbitrary: i s)
  case 0
  then show ?case by simp
next
  case (Suc d)
  then have lt: "i < n" by simp
  obtain e1 s1 where f: "f i s = (e1, s1)" by (cases "f i s")
  with Suc.prems(3) lt have e1: "e1 = None" and rest: "forEach f [Suc i ..< n] s1 = (None, s')"
    by (auto simp: upt_conv_Cons split: option.splits)
  from step [OF lt Suc.prems(2)] f e1 have P1: "P (Suc i) s1" by simp
  from Suc.hyps(2) lt have d: "d = n - Suc i" and le: "Suc i \<le> n" by simp_all
  from Suc.hyps(1) [OF d le P1 rest] show ?case .
qed

lemma forEach_partial:
  assumes step: "\<And>j s e s'. P s \<Longrightarrow> f j s = (e, s') \<Longrightarrow> P s'"
  shows "P s \<Longrightarrow> forEach f idxs s = (e, s') \<Longrightarrow> P s'"
proof (induction idxs arbitrary: s)
  case Nil
  then show ?case by simp
next
  case (Cons i idxs)
  obtain e1 s1 where f: "f i s = (e1, s1)" by (cases "f i s")
  from step [OF Cons.prems(1) f] have P1: "P s1" .
  show ?case
  proof (cases e1)
    case None
    with f Cons.prems(2) have "forEach f idxs s1 = (e, s')" by simp
    from Cons.IH [OF P1 this] show ?thesis .
  next
    case (Some x)
    with f Cons.prems(2) P1 show ?thesis by simp
  qed
qed

section \<open>One proposal, one round, a run of rounds\<close>

lemma propose_fields [simp]:
  "maxLoopCount (snd (propose j m)) = maxLoopCount m"
  "vacancyPrefersProfile (snd (propose j m)) = vacancyPrefersProfile m"
  "length (wrappedProfiles (snd (propose j m))) = length (wrappedProfiles m)"
  "length (wrappedVacancies (snd (propose j m))) = length (wrappedVacancies m)"
  by (simp_all add: propose_def call_prefers_def Let_def split: prod.splits option.splits)

lemma propose_mid_round:
  assumes "mid_round nP nV c j m" and "j < nP"
  shows "\<exists>m'. propose j m = (None, m') \<and> mid_round nP nV c (Suc j) m'"
proof (cases "c < nV")
  case False
  with assms have c: "c = nV" by (simp add: mid_round_def)
  with assms have "propose j m = (None, m)"
    by (simp add: propose_def nextCandidate_def mid_round_def in_range_def)
  moreover from assms c have "mid_round nP nV c (Suc j) m"
    by (auto simp: mid_round_def)
  ultimately show ?thesis by simp
next
  case True
  with assms show ?thesis
    by (auto simp: propose_def nextCandidate_def mid_round_def in_range_def index_def
          call_prefers_def Let_def nth_list_update split: option.splits)
qed

lemma match_round_after_rounds:
  assumes "after_rounds nP nV k m"
  shows "\<exists>m'. match_round m = (None, m') \<and> after_rounds nP nV (Suc k) m'"
proof -
  let ?m1 = "m\<lparr>done := True\<rparr>"
  from assms have start: "mid_round nP nV (min k nV) 0 ?m1"
    by (auto simp: after_rounds_def mid_round_def in_range_def)
  have "\<exists>m'. forEach propose [0 ..< nP] ?m1 = (None, m') \<and> mid_round nP nV (min k nV) nP m'"
    by (rule forEach_upt_total [where P = "mid_round nP nV (min k nV)"])
       (use start propose_mid_round in auto)
  then obtain m' where m': "forEach propose [0 ..< nP] ?m1 = (None, m')"
    "mid_round nP nV (min k nV) nP m'" by blast
  from assms have len: "length (wrappedProfiles m) = nP"
    by (simp add: after_rounds_def in_range_def)
  from m'(2) have "after_rounds nP nV (Suc k) m'"
    by (auto simp: after_rounds_def mid_round_def min_def split: if_splits)
  with m'(1) len show ?thesis by (simp add: match_round_def)
qed

lemma Matcher_new_after_rounds:
  "after_rounds (length ps) (length vs) 0 (Matcher_new ps vs prefers cap)"
  by (simp add: after_rounds_def in_range_def Matcher_new_def MatchContainer_new_def)

lemma iterate_rounds_after_rounds:
  "after_rounds (length ps) (length vs) k (iterate_rounds k (Matcher_new ps vs prefers cap))"
proof (induction k)
  case 0
  show ?case by (simp add: Matcher_new_after_rounds)
next
  case (Suc k)
  from match_round_after_rounds [OF Suc] show ?case by auto
qed

lemma iterate_rounds_no_error:
  "fst (match_round (iterate_rounds k (Matcher_new ps vs prefers cap))) = None"
  using match_round_after_rounds [OF iterate_rounds_after_rounds [of ps vs k prefers cap]]
  by auto

lemma iterate_rounds_done:
  "done (iterate_rounds k (Matcher_new ps vs prefers cap)) \<longleftrightarrow> 0 < k \<and> (ps = [] \<or> length vs < k)"
  using iterate_rounds_after_rounds [of ps vs k prefers cap]
  by (simp add: after_rounds_def)

lemma propose_preserves:
  assumes "propose j s = (e, s')"
  shows "maxLoopCount s' = maxLoopCount s"
    and "vacancyPrefersProfile s' = vacancyPrefersProfile s"
  using propose_fields(1,2) [of j s] assms by simp_all

lemma match_round_fields:
  "maxLoopCount (snd (match_round m)) = maxLoopCount m"
  "vacancyPrefersProfile (snd (match_round m)) = vacancyPrefersProfile m"
proof -
  let ?m1 = "m\<lparr>done := True\<rparr>"
  obtain e m' where r: "forEach propose [0 ..< length (wrappedProfiles m)] ?m1 = (e, m')"
    by (cases "forEach propose [0 ..< length (wrappedProfiles m)] ?m1")
  have "maxLoopCount m' = maxLoopCount m \<and> vacancyPrefersProfile m' = vacancyPrefersProfile m"
  proof (rule forEach_partial [where P = "\<lambda>s. maxLoopCount s = maxLoopCount m \<and>
            vacancyPrefersProfile s = vacancyPrefersProfile m", OF _ _ r])
    show "maxLoopCount ?m1 = maxLoopCount m \<and> vacancyPrefersProfile ?m1 = vacancyPrefersProfile m"
      by simp
  next
    fix j s e s'
    assume "maxLoopCount s = maxLoopCount m \<and> vacancyPrefersProfile s = vacancyPrefersProfile m"
      and "propose j s = (e, s')"
    then show "maxLoopCount s' = maxLoopCount m \<and> vacancyPrefersProfile s' = vacancyPrefersProfile m"
      by (simp add: propose_preserves)
  qed
  then show "maxLoopCount (snd (match_round m)) = maxLoopCount m"
    "vacancyPrefersProfile (snd (match_round m)) = vacancyPrefersProfile m"
    using r by (simp_all add: match_round_def)
qed

lemma iterate_rounds_fields:
  "maxLoopCount (iterate_rounds k m) = maxLoopCount m"
  "vacancyPrefersProfile (iterate_rounds k m) = vacancyPrefersProfile m"
  by (induction k) (simp_all add: match_round_fields)

lemma match_loop_unroll:
  assumes "\<And>j. j < n \<Longrightarrow> \<not> done (iterate_rounds j m) \<and>
              (maxLoopCount m \<le> 0 \<or> int (k + j) < maxLoopCount m) \<and>
              fst (match_round (iterate_rounds j m)) = None"
  shows "match_loop k m = match_loop (k + n) (iterate_rounds n m)"
  using assms
proof (induction n)
  case 0
  show ?case by simp
next
  case (Suc n)
  from Suc.prems have IH: "match_loop k m = match_loop (k + n) (iterate_rounds n m)"
    by (intro Suc.IH) simp
  from Suc.prems [of n] have c: "\<not> done (iterate_rounds n m)"
    "maxLoopCount m \<le> 0 \<or> int (k + n) < maxLoopCount m"
    "fst (match_round (iterate_rounds n m)) = None" by simp_all
  obtain e m' where r: "match_round (iterate_rounds n m) = (e, m')"
    by (cases "match_round (iterate_rounds n m)")
  with c(3) have e: "e = None" and m': "iterate_rounds (Suc n) m = m'" by simp_all
  have "match_loop (k + n) (iterate_rounds n m) = match_loop (k + n + 1) m'"
    by (subst match_loop.simps) (use c(1,2) in \<open>simp add: iterate_rounds_fields r e\<close>)
  with IH m' show ?case by simp
qed

lemma match_loop_stop:
  "done m \<or> (0 < maxLoopCount m \<and> maxLoopCount m \<le> int k) \<Longrightarrow> match_loop k m = Some (None, k, m)"
  by (subst match_loop.simps) auto

lemma match_loop_Matcher_new:
  assumes n0: "n0 = (if ps = [] then 1 else length vs + 1)"
    and n: "n = (if cap \<le> 0 then n0 else min (nat cap) n0)"
  shows "match_loop 0 (Matcher_new ps vs prefers cap) =
           Some (None, n, iterate_rounds n (Matcher_new ps vs prefers cap))"
proof -
  let ?M = "Matcher_new ps vs prefers cap"
  have cap: "maxLoopCount ?M = cap" by (simp add: Matcher_new_def)
  have "match_loop 0 ?M = match_loop (0 + n) (iterate_rounds n ?M)"
  proof (rule match_loop_unroll)
    fix j assume "j < n"
    with n0 n show "\<not> done (iterate_rounds j ?M) \<and>
              (maxLoopCount ?M \<le> 0 \<or> int (0 + j) < maxLoopCount ?M) \<and>
              fst (match_round (iterate_rounds j ?M)) = None"
      by (auto simp: iterate_rounds_done iterate_rounds_no_error cap split: if_splits)
  qed
  also have "\<dots> = Some (None, n, iterate_rounds n ?M)"
  proof -
    have "done (iterate_rounds n ?M) \<or>
          (0 < maxLoopCount (iterate_rounds n ?M) \<and> maxLoopCount (iterate_rounds n ?M) \<le> int n)"
      using n0 n by (auto simp: iterate_rounds_done iterate_rounds_fields cap split: if_splits)
    from match_loop_stop [OF this] show ?thesis by simp
  qed
  finally show ?thesis .
qed

lemma map_update_same: "(map f xs)[i := f (xs ! i)] = map f xs"
  by (cases "i < length xs") (simp_all add: list_update_same_conv list_update_beyond)

lemma propose_obj:
  assumes "propose j s = (e, s')"
  shows "map obj (wrappedProfiles s') = map obj (wrappedProfiles s) \<and>
         map obj (wrappedVacancies s') = map obj (wrappedVacancies s)"
proof (cases "j < length (wrappedProfiles s)")
  case True
  with assms show ?thesis
    by (auto simp: propose_def nextCandidate_def call_prefers_def index_def Let_def map_update
          map_update_same nth_list_update split: option.splits if_splits)
next
  case False
  with assms show ?thesis
    by (auto simp: propose_def nextCandidate_def call_prefers_def index_def Let_def map_update
          map_update_same list_update_beyond split: option.splits if_splits)
qed

lemma match_round_obj:
  "map obj (wrappedProfiles (snd (match_round m))) = map obj (wrappedProfiles m) \<and>
   map obj (wrappedVacancies (snd (match_round m))) = map obj (wrappedVacancies m)"
proof -
  let ?m1 = "m\<lparr>done := True\<rparr>"
  let ?P = "\<lambda>s. map obj (wrappedProfiles s) = map obj (wrappedProfiles m) \<and>
         map obj (wrappedVacancies s) = map obj (wrappedVacancies m)"
  obtain e m' where r: "forEach propose [0 ..< length (wrappedProfiles m)] ?m1 = (e, m')"
    by (cases "forEach propose [0 ..< length (wrappedProfiles m)] ?m1")
  have "?P m'"
  proof (rule forEach_partial [where P = ?P, OF _ _ r])
    show "?P ?m1" by simp
  next
    fix j s e s'
    assume "?P s" and "propose j s = (e, s')"
    with propose_obj [of j s e s'] show "?P s'" by simp
  qed
  with r show ?thesis by (simp add: match_round_def)
qed

lemma iterate_rounds_obj:
  "map obj (wrappedProfiles (iterate_rounds k (Matcher_new ps vs prefers cap))) = ps \<and>
   map obj (wrappedVacancies (iterate_rounds k (Matcher_new ps vs prefers cap))) = vs"
proof (induction k)
  case 0
  show ?case by (simp add: Matcher_new_def MatchContainer_new_def comp_def)
next
  case (Suc k)
  with match_round_obj [of "iterate_rounds k (Matcher_new ps vs prefers cap)"]
  show ?case by simp
qed

section \<open>The eviction pass and the result list\<close>

lemma evict_preserves:
  assumes "evict i s = (e, s')"
  shows "done s' = done s"
    and "vacancyPrefersProfile s' = vacancyPrefersProfile s"
    and "length (wrappedVacancies s') = length (wrappedVacancies s)"
    and "length (wrappedProfiles s') = length (wrappedProfiles s)"
  using assms
  by (auto simp: evict_def call_prefers_def Let_def split: option.splits if_splits)

lemma evict_in_range:
  assumes "in_range nP nV m" and "i < nV"
  shows "\<exists>m'. evict i m = (None, m') \<and> in_range nP nV m'"
  using assms
  by (auto simp: evict_def call_prefers_def index_def in_range_def Let_def nth_list_update
        split: option.splits)

lemma evictUnmatching_in_range:
  assumes "in_range nP nV m"
  shows "\<exists>m'. evictUnmatching m = (None, m') \<and> in_range nP nV m'"
proof -
  from assms have len: "length (wrappedVacancies m) = nV" by (simp add: in_range_def)
  have "\<exists>m'. forEach evict [0 ..< nV] m = (None, m') \<and> in_range nP nV m'"
    by (rule forEach_upt_total [where P = "\<lambda>j. in_range nP nV"])
       (use assms evict_in_range in auto)
  with len show ?thesis by (simp add: evictUnmatching_def)
qed

lemma evictUnmatching_preserves:
  assumes "evictUnmatching m = (e, m')"
  shows "done m' = done m" and "vacancyPrefersProfile m' = vacancyPrefersProfile m"
proof -
  have "done m' = done m \<and> vacancyPrefersProfile m' = vacancyPrefersProfile m"
  proof (rule forEach_partial [where P = "\<lambda>s. done s = done m \<and>
            vacancyPrefersProfile s = vacancyPrefersProfile m" and s = m])
    show "done m = done m \<and> vacancyPrefersProfile m = vacancyPrefersProfile m" by simp
    show "forEach evict [0 ..< length (wrappedVacancies m)] m = (e, m')"
      using assms by (simp add: evictUnmatching_def)
  next
    fix j s e s'
    assume "done s = done m \<and> vacancyPrefersProfile s = vacancyPrefersProfile m"
      and "evict j s = (e, s')"
    then show "done s' = done m \<and> vacancyPrefersProfile s' = vacancyPrefersProfile m"
      by (simp add: evict_preserves)
  qed
  then show "done m' = done m" and "vacancyPrefersProfile m' = vacancyPrefersProfile m"
    by simp_all
qed

lemma evict_endorsed:
  assumes P: "length (wrappedVacancies s) = n \<and> (\<forall>t < j. endorsed s (wrappedVacancies s ! t))"
    and j: "j < n" and ev: "evict j s = (None, s')"
  shows "length (wrappedVacancies s') = n \<and> (\<forall>t < Suc j. endorsed s' (wrappedVacancies s' ! t))"
  using assms
  by (auto simp: evict_def call_prefers_def index_def endorsed_def Let_def nth_list_update
        less_Suc_eq split: option.splits if_splits)

lemma evictUnmatching_endorsed:
  assumes "evictUnmatching m = (None, m')"
  shows "\<forall>v \<in> set (wrappedVacancies m'). endorsed m' v"
proof -
  let ?n = "length (wrappedVacancies m)"
  have "length (wrappedVacancies m') = ?n \<and> (\<forall>t < ?n. endorsed m' (wrappedVacancies m' ! t))"
  proof (rule forEach_upt_partial [where P = "\<lambda>j s. length (wrappedVacancies s) = ?n \<and>
            (\<forall>t < j. endorsed s (wrappedVacancies s ! t))" and i = 0 and s = m and f = evict])
    show "forEach evict [0 ..< ?n] m = (None, m')"
      using assms by (simp add: evictUnmatching_def)
  qed (use evict_endorsed in \<open>blast+\<close>)
  then show ?thesis by (auto simp: in_set_conv_nth)
qed

lemma collect_endorsed:
  assumes "\<forall>v \<in> set xs. endorsed m v" and "collect m xs = Inr pairs"
    and "(v, p) \<in> set pairs"
  shows "vacancyPrefersProfile m v (Some p) p"
  using assms
proof (induction xs arbitrary: pairs)
  case Nil
  then show ?case by simp
next
  case (Cons x xs)
  then show ?case
    by (auto simp: index_def endorsed_def split: option.splits sum.splits if_splits)
qed

lemma collect_in_range:
  assumes "\<forall>v \<in> set xs. \<forall>q. match v = Some q \<longrightarrow> q < length (wrappedProfiles m)"
  shows "\<exists>pairs. collect m xs = Inr pairs"
  using assms
  by (induction xs) (auto simp: index_def split: option.splits)

lemma evict_other_vacancy:
  assumes "evict j s = (e, s')" and "t \<noteq> j"
  shows "match (wrappedVacancies s' ! t) = match (wrappedVacancies s ! t)"
  using assms
  by (auto simp: evict_def call_prefers_def Let_def split: option.splits if_splits)

lemma evict_profile_stays_free:
  assumes "evict j s = (e, s')" and "match (wrappedProfiles s ! q) = None"
  shows "match (wrappedProfiles s' ! q) = None"
  using assms
  by (auto simp: evict_def call_prefers_def index_def Let_def nth_list_update
        split: option.splits if_splits)

lemma evict_obj:
  assumes "evict j s = (e, s')" and "j < length (wrappedVacancies s)"
  shows "obj (wrappedVacancies s' ! t) = obj (wrappedVacancies s ! t)"
    and "obj (wrappedProfiles s' ! q) = obj (wrappedProfiles s ! q)"
  using assms
  by (auto simp: evict_def call_prefers_def index_def Let_def nth_list_update
        split: option.splits if_splits)

lemma evict_this_vacancy:
  assumes "evict j s = (None, s')" and "j < length (wrappedVacancies s)"
  shows "evicted s s' j"
  using assms
  by (auto simp: evicted_def evict_def call_prefers_def index_def Let_def nth_list_update
        split: option.splits if_splits)

lemma evict_inv_step:
  assumes inv: "evict_inv m1 j s" and j: "j < length (wrappedVacancies m1)"
    and ev: "evict j s = (None, s')"
  shows "evict_inv m1 (Suc j) s'"
proof -
  from inv j have js: "j < length (wrappedVacancies s)" by (simp add: evict_inv_def)
  note pres = evict_preserves [OF ev]
  note objs = evict_obj [OF ev js]
  have later: "match (wrappedVacancies s' ! t) = match (wrappedVacancies m1 ! t)"
    if "t < length (wrappedVacancies m1)" "Suc j \<le> t" for t
    using that inv evict_other_vacancy [OF ev, of t] by (simp add: evict_inv_def)
  have earlier: "evicted m1 s' t" if "t < j" for t
  proof -
    from inv that have old: "evicted m1 s t" by (simp add: evict_inv_def)
    from that have "match (wrappedVacancies s' ! t) = match (wrappedVacancies s ! t)"
      by (intro evict_other_vacancy [OF ev]) simp
    with old evict_profile_stays_free [OF ev] show ?thesis
      by (auto simp: evicted_def split: option.splits if_splits)
  qed
  have this_one: "evicted m1 s' j"
    using evict_this_vacancy [OF ev js] inv j
    by (auto simp: evicted_def evict_inv_def split: option.splits if_splits)
  from earlier this_one have "\<forall>t < Suc j. evicted m1 s' t"
    by (auto simp: less_Suc_eq)
  with inv pres objs later show ?thesis
    by (simp add: evict_inv_def)
qed

lemma evictUnmatching_evicted:
  assumes "evictUnmatching m1 = (None, m')"
  shows "\<forall>i < length (wrappedVacancies m1). evicted m1 m' i"
proof -
  have "evict_inv m1 (length (wrappedVacancies m1)) m'"
  proof (rule forEach_upt_partial [where P = "evict_inv m1" and i = 0 and s = m1 and f = evict])
    show "forEach evict [0 ..< length (wrappedVacancies m1)] m1 = (None, m')"
      using assms by (simp add: evictUnmatching_def)
    show "evict_inv m1 0 m1" by (simp add: evict_inv_def)
  qed (use evict_inv_step in \<open>blast+\<close>)
  then show ?thesis by (simp add: evict_inv_def)
qed

lemma getMatches_returned:
  assumes "\<not> done m" and "getMatches m = Some (Inr pairs, m')"
  shows "\<exists>k m1. match_loop 0 m = Some (None, k, m1) \<and> done m1 \<and>
           evictUnmatching m1 = (None, m') \<and> collect m' (wrappedVacancies m') = Inr pairs"
  using assms
  by (auto simp: getMatches_def Matcher_match_def split: option.splits if_splits prod.splits)

section \<open>The result of a new engine\<close>

lemma getMatches_Matcher_new:
  assumes n0: "n0 = (if ps = [] then 1 else length vs + 1)"
    and n: "n = (if cap \<le> 0 then n0 else min (nat cap) n0)"
  shows "\<exists>r m'. getMatches (Matcher_new ps vs prefers cap) = Some (r, m') \<and>
           (if done (iterate_rounds n (Matcher_new ps vs prefers cap))
            then \<exists>pairs. r = Inr pairs else r = Inl NonConvergence)"
proof -
  let ?M = "Matcher_new ps vs prefers cap"
  let ?m1 = "iterate_rounds n ?M"
  have nd: "\<not> done ?M" by (simp add: Matcher_new_def)
  note loop = match_loop_Matcher_new [OF n0 n, of prefers]
  show ?thesis
  proof (cases "done ?m1")
    case False
    with nd loop show ?thesis
      by (simp add: getMatches_def Matcher_match_def)
  next
    case True
    have rng: "in_range (length ps) (length vs) ?m1"
      using iterate_rounds_after_rounds [of ps vs n prefers cap] by (simp add: after_rounds_def)
    from evictUnmatching_in_range [OF rng] obtain m' where
      m': "evictUnmatching ?m1 = (None, m')" "in_range (length ps) (length vs) m'" by blast
    from m'(2) have "\<forall>v \<in> set (wrappedVacancies m').
        \<forall>q. match v = Some q \<longrightarrow> q < length (wrappedProfiles m')"
      by (auto simp: in_range_def in_set_conv_nth)
    from collect_in_range [OF this] obtain pairs where
      "collect m' (wrappedVacancies m') = Inr pairs" by blast
    with nd loop True m'(1) show ?thesis
      by (simp add: getMatches_def Matcher_match_def)
  qed
qed

text \<open>
  Claim C1. Whenever \<^verbatim>\<open>getMatches()\<close> on a new engine returns a pair list (it did not
  throw), every pair \<open>(v, p)\<close> of the list satisfies the preference function in the
  self-comparison of the eviction pass: \<open>prefers v p p\<close> holds, with \<open>p\<close> given as the
  current match. This is the work of the eviction pass on the matcher \<open>m1\<close> that the
  rounds leave: for every vacancy that holds a profile there, the pass keeps the match
  when the self-comparison is true, and when it is false it clears both sides, the
  vacancy's match and the match of that profile; a vacancy without a match stays so.
\<close>

theorem getMatches_endorsed:
  assumes "getMatches (Matcher_new ps vs prefers cap) = Some (Inr pairs, m')"
  shows "(\<forall>(v, p) \<in> set pairs. prefers v (Some p) p) \<and>
         (\<exists>k m1. match_loop 0 (Matcher_new ps vs prefers cap) = Some (None, k, m1) \<and>
            (\<forall>i < length vs.
               case match (wrappedVacancies m1 ! i) of
                 None \<Rightarrow> match (wrappedVacancies m' ! i) = None
               | Some pm \<Rightarrow>
                   pm < length ps \<and>
                   (if prefers (vs ! i) (Some (ps ! pm)) (ps ! pm)
                    then match (wrappedVacancies m' ! i) = Some pm
                    else match (wrappedVacancies m' ! i) = None \<and>
                         match (wrappedProfiles m' ! pm) = None)))"
proof -
  let ?M = "Matcher_new ps vs prefers cap"
  have nd: "\<not> done ?M" by (simp add: Matcher_new_def)
  from getMatches_returned [OF nd assms] obtain k m1 where
    run: "match_loop 0 ?M = Some (None, k, m1)" "evictUnmatching m1 = (None, m')"
      "collect m' (wrappedVacancies m') = Inr pairs" by blast
  from run(1) match_loop_Matcher_new [OF refl refl, of ps vs prefers cap]
  obtain n where m1: "m1 = iterate_rounds n ?M" by auto
  then have pr1: "vacancyPrefersProfile m1 = prefers"
    by (simp add: iterate_rounds_fields Matcher_new_def)
  with evictUnmatching_preserves(2) [OF run(2)] have pr: "vacancyPrefersProfile m' = prefers"
    by simp
  have first: "\<forall>(v, p) \<in> set pairs. prefers v (Some p) p"
    using collect_endorsed [OF evictUnmatching_endorsed [OF run(2)] run(3)] pr by auto
  from m1 iterate_rounds_obj [of n ps vs prefers cap]
  have objs: "map obj (wrappedProfiles m1) = ps" "map obj (wrappedVacancies m1) = vs"
    by simp_all
  then have len: "length (wrappedProfiles m1) = length ps" "length (wrappedVacancies m1) = length vs"
    by (metis length_map)+
  have ov: "obj (wrappedVacancies m1 ! i) = vs ! i" if "i < length vs" for i
    using that objs(2) len(2) by (metis nth_map)
  have op: "obj (wrappedProfiles m1 ! q) = ps ! q" if "q < length ps" for q
    using that objs(1) len(1) by (metis nth_map)
  have second: "case match (wrappedVacancies m1 ! i) of
                 None \<Rightarrow> match (wrappedVacancies m' ! i) = None
               | Some pm \<Rightarrow>
                   pm < length ps \<and>
                   (if prefers (vs ! i) (Some (ps ! pm)) (ps ! pm)
                    then match (wrappedVacancies m' ! i) = Some pm
                    else match (wrappedVacancies m' ! i) = None \<and>
                         match (wrappedProfiles m' ! pm) = None)"
    if "i < length vs" for i
  proof -
    from that len(2) evictUnmatching_evicted [OF run(2)] have "evicted m1 m' i" by simp
    with that show ?thesis
      by (auto simp: evicted_def pr1 ov op len split: option.splits if_splits)
  qed
  from first second run(1) show ?thesis by blast
qed

text \<open>The engine of the test \<^verbatim>\<open>multimatch\<close>: the rounds leave every vacancy with
  the profile of the same index; the preference function endorses the first two pairs,
  which are returned, and refuses the third, whose two sides the eviction pass clears.\<close>

theorem getMatches_endorsed_witness:
  "map_option fst (getMatches multimatch) =
     Some (Inr [((''blue'', ''red''), (''red'', ''blue'')),
                ((''green'', ''yellow''), (''yellow'', ''green''))]) \<and>
   prefers_example (''blue'', ''red'') (Some (''red'', ''blue'')) (''red'', ''blue'') \<and>
   prefers_example (''green'', ''yellow'') (Some (''yellow'', ''green'')) (''yellow'', ''green'') \<and>
   map_option (map match \<circ> wrappedVacancies \<circ> snd \<circ> snd) (match_loop 0 multimatch) =
     Some [Some 0, Some 1, Some 2] \<and>
   match (wrappedVacancies (snd (the (getMatches multimatch))) ! 0) = Some 0 \<and>
   match (wrappedVacancies (snd (the (getMatches multimatch))) ! 1) = Some 1 \<and>
   match (wrappedVacancies (snd (the (getMatches multimatch))) ! 2) = None \<and>
   match (wrappedProfiles (snd (the (getMatches multimatch))) ! 2) = None"
proof -
  let ?ps = "[(''red'', ''blue''), (''yellow'', ''green''), (''purple'', ''teal'')]"
  let ?vs = "[(''blue'', ''red''), (''green'', ''yellow''), (''black'', ''white'')]"
  let ?pairs = "[((''blue'', ''red''), (''red'', ''blue'')),
                ((''green'', ''yellow''), (''yellow'', ''green''))]"
  have run: "map_option fst (getMatches multimatch) = Some (Inr ?pairs)"
    by code_simp
  then obtain m' where m': "getMatches multimatch = Some (Inr ?pairs, m')"
    by (cases "getMatches multimatch") auto
  have before: "map_option (map match \<circ> wrappedVacancies \<circ> snd \<circ> snd) (match_loop 0 multimatch) =
     Some [Some 0, Some 1, Some 2]"
    by code_simp
  from getMatches_endorsed [of ?ps ?vs prefers_example 10 ?pairs m'] m'
  obtain k m1 where
    endorsed: "\<forall>(v, p) \<in> set ?pairs. prefers_example v (Some p) p"
    and loop: "match_loop 0 multimatch = Some (None, k, m1)"
    and pass: "\<forall>i < length ?vs.
               case match (wrappedVacancies m1 ! i) of
                 None \<Rightarrow> match (wrappedVacancies m' ! i) = None
               | Some pm \<Rightarrow>
                   pm < length ?ps \<and>
                   (if prefers_example (?vs ! i) (Some (?ps ! pm)) (?ps ! pm)
                    then match (wrappedVacancies m' ! i) = Some pm
                    else match (wrappedVacancies m' ! i) = None \<and>
                         match (wrappedProfiles m' ! pm) = None)"
    unfolding multimatch_def by blast
  from before loop have m1: "map match (wrappedVacancies m1) = [Some 0, Some 1, Some 2]"
    by simp
  then have at: "match (wrappedVacancies m1 ! 0) = Some 0" "match (wrappedVacancies m1 ! 1) = Some 1"
    "match (wrappedVacancies m1 ! 2) = Some 2"
    by (metis length_map nth_map length_Cons list.size(3) nth_Cons_0 nth_Cons_Suc
          One_nat_def numeral_2_eq_2 lessI less_Suc_eq)+
  from pass [rule_format, of 0] at(1) have v0: "match (wrappedVacancies m' ! 0) = Some 0"
    by (simp add: prefers_example_def)
  from pass [rule_format, of 1] at(2) have v1: "match (wrappedVacancies m' ! 1) = Some 1"
    by (simp add: prefers_example_def)
  from pass [rule_format, of 2] at(3)
  have v2: "match (wrappedVacancies m' ! 2) = None \<and> match (wrappedProfiles m' ! 2) = None"
    by (simp add: prefers_example_def)
  from run before endorsed v0 v1 v2 m' show ?thesis by simp
qed

section \<open>Non-convergence and termination\<close>

text \<open>
  Claim C7, amended. \<^verbatim>\<open>getMatches()\<close> on a new engine always ends, with a pair list or
  with the non-convergence error and with no other error. It throws the non-convergence
  error if and only if the cap is greater than \<open>0\<close>, there is at least one profile, and
  the cap is at most the number of vacancies. That is the case exactly when none of the
  first \<open>cap\<close> rounds ends with \<^verbatim>\<open>done\<close> true; whether a round changed a match does
  not enter. In particular a cap of \<open>0\<close> (or below) never throws.
\<close>

theorem nonconvergence_iff:
  "\<exists>r m'. getMatches (Matcher_new ps vs prefers cap) = Some (r, m') \<and>
     ((\<exists>pairs. r = Inr pairs) \<or> r = Inl NonConvergence) \<and>
     (r = Inl NonConvergence \<longleftrightarrow> 0 < cap \<and> ps \<noteq> [] \<and> cap \<le> int (length vs)) \<and>
     (r = Inl NonConvergence \<longleftrightarrow>
        0 < cap \<and> (\<forall>k \<in> {1 .. nat cap}. \<not> done (iterate_rounds k (Matcher_new ps vs prefers cap))))"
proof -
  define n0 where "n0 = (if ps = [] then 1 else length vs + 1)"
  define n where "n = (if cap \<le> 0 then n0 else min (nat cap) n0)"
  from getMatches_Matcher_new [OF n0_def n_def, of prefers] obtain r m' where
    r: "getMatches (Matcher_new ps vs prefers cap) = Some (r, m')"
      "if done (iterate_rounds n (Matcher_new ps vs prefers cap))
       then \<exists>pairs. r = Inr pairs else r = Inl NonConvergence" by blast
  have d: "done (iterate_rounds n (Matcher_new ps vs prefers cap)) \<longleftrightarrow>
        \<not> (0 < cap \<and> ps \<noteq> [] \<and> cap \<le> int (length vs))"
    by (auto simp: iterate_rounds_done n_def n0_def)
  have q: "(\<forall>k \<in> {1 .. nat cap}. \<not> done (iterate_rounds k (Matcher_new ps vs prefers cap))) \<longleftrightarrow>
        (nat cap = 0 \<or> (ps \<noteq> [] \<and> nat cap \<le> length vs))"
  proof (cases "nat cap")
    case 0
    then show ?thesis by simp
  next
    case (Suc c)
    then show ?thesis
      by (auto simp: iterate_rounds_done dest: bspec [where x = "Suc c"])
  qed
  from r d q show ?thesis
    by (cases "done (iterate_rounds n (Matcher_new ps vs prefers cap))") auto
qed

text \<open>One profile, one vacancy and a cap of one round: the error is thrown.\<close>

theorem nonconvergence_iff_witness:
  "(0::int) < 1 \<and> [1::nat] \<noteq> [] \<and> (1::int) \<le> int (length [10::nat]) \<and>
   list_all (\<lambda>k. \<not> done (iterate_rounds k (capped 1))) [1 ..< 2] \<and>
   map_option fst (getMatches (capped 1)) = Some (Inl NonConvergence)"
proof -
  have h: "(0::int) < 1 \<and> [1::nat] \<noteq> [] \<and> (1::int) \<le> int (length [10::nat])" by simp
  have l: "list_all (\<lambda>k. \<not> done (iterate_rounds k (capped 1))) [1 ..< 2]"
    by code_simp
  from nonconvergence_iff [of "[1::nat]" "[10]" "\<lambda>_ _ _. True" 1] h
  have "map_option fst (getMatches (capped 1)) = Some (Inl NonConvergence)"
    by (auto simp: capped_def)
  with l h show ?thesis by simp
qed

text \<open>Claim C7 as stated fails when a fixed point is a round without acceptance and
  without eviction: with one profile, two vacancies, the always-true preference
  function and a cap of \<open>2\<close>, the second round changes no match and invokes nothing (the
  matched profile proposes to the free second vacancy), so a fixed point is reached
  within the cap; the loop leaves after its two rounds and the error is thrown all the
  same.\<close>

theorem nonconvergence_after_unchanged_round_counterexample:
  "map_option fst (getMatches two_capped) = Some (Inl NonConvergence) \<and>
   map match (wrappedProfiles (iterate_rounds 2 two_capped)) =
     map match (wrappedProfiles (iterate_rounds 1 two_capped)) \<and>
   map match (wrappedVacancies (iterate_rounds 2 two_capped)) =
     map match (wrappedVacancies (iterate_rounds 1 two_capped)) \<and>
   calls (iterate_rounds 2 two_capped) = calls (iterate_rounds 1 two_capped) \<and>
   map_option (fst \<circ> snd) (match_loop 0 two_capped) = Some 2"
  by code_simp

text \<open>
  Claim C8, amended. For non-empty profile and vacancy lists, a cap \<open>N > 0\<close> and the
  preference function that always answers true, \<^verbatim>\<open>getMatches()\<close> throws the
  non-convergence error exactly when \<open>N\<close> is at most the number of vacancies; with a
  larger cap it returns a pair list, because every cursor is exhausted after as many
  rounds as there are vacancies and the next round changes nothing.
\<close>

theorem always_true_nonconvergence:
  assumes "ps \<noteq> []" and "vs \<noteq> []" and "0 < N"
  shows "\<exists>r m'. getMatches (Matcher_new ps vs (\<lambda>_ _ _. True) N) = Some (r, m') \<and>
           (if N \<le> int (length vs) then r = Inl NonConvergence else \<exists>pairs. r = Inr pairs)"
proof -
  define n0 where "n0 = (if ps = [] then 1 else length vs + 1)"
  define n where "n = (if N \<le> 0 then n0 else min (nat N) n0)"
  from getMatches_Matcher_new [OF n0_def n_def, of "\<lambda>_ _ _. True"] obtain r m' where
    r: "getMatches (Matcher_new ps vs (\<lambda>_ _ _. True) N) = Some (r, m')"
      "if done (iterate_rounds n (Matcher_new ps vs (\<lambda>_ _ _. True) N))
       then \<exists>pairs. r = Inr pairs else r = Inl NonConvergence" by blast
  have d: "done (iterate_rounds n (Matcher_new ps vs (\<lambda>_ _ _. True) N)) \<longleftrightarrow> \<not> N \<le> int (length vs)"
    using assms by (auto simp: iterate_rounds_done n_def n0_def)
  from r d show ?thesis by auto
qed

text \<open>With one vacancy and a cap of \<open>1\<close> the error is thrown.\<close>

theorem always_true_nonconvergence_witness:
  "[1::nat] \<noteq> [] \<and> [10::nat] \<noteq> [] \<and> (0::int) < 1 \<and>
   map_option fst (getMatches (Matcher_new [1::nat] [10] (\<lambda>_ _ _. True) 1)) = Some (Inl NonConvergence)"
proof -
  have a: "[1::nat] \<noteq> []" and b: "[10::nat] \<noteq> []" and c: "(0::int) < 1" by simp_all
  from always_true_nonconvergence [OF a b c] show ?thesis by auto
qed

text \<open>Claim C8 as stated fails: with one profile, one vacancy, the always-true
  preference function and a cap of \<open>2\<close>, the second round finds the cursor exhausted and
  the engine returns the pair instead of throwing.\<close>

theorem always_true_converges_counterexample:
  "[1::nat] \<noteq> [] \<and> [10::nat] \<noteq> [] \<and> (0::int) < 2 \<and>
   map_option fst (getMatches (Matcher_new [1::nat] [10] (\<lambda>_ _ _. True) 2)) = Some (Inr [(10, 1)])"
  by code_simp

text \<open>
  Claim C10. With a cap of \<open>0\<close> the loop of \<^verbatim>\<open>match()\<close> ends for all profiles, all
  vacancies and every preference function: it leaves after \<open>k\<close> rounds with
  \<open>k \<le> length vs + 1\<close>, without an error and with \<^verbatim>\<open>done\<close> true. After \<open>j\<close> rounds every
  profile's cursor stands at \<open>min j (length vs)\<close>: it moves by one in each round until
  it reaches the number of vacancies.
\<close>

theorem match_loop_terminates:
  "\<exists>k m'. match_loop 0 (Matcher_new ps vs prefers 0) = Some (None, k, m') \<and>
      k \<le> length vs + 1 \<and> done m' \<and>
      m' = iterate_rounds k (Matcher_new ps vs prefers 0) \<and>
      map currentCandidate (wrappedProfiles (iterate_rounds j (Matcher_new ps vs prefers 0)))
        = replicate (length ps) (min j (length vs))"
proof -
  let ?M = "Matcher_new ps vs prefers 0"
  define n where "n = (if ps = [] then 1 else length vs + 1)"
  have "match_loop 0 ?M = Some (None, n, iterate_rounds n ?M)"
    by (rule match_loop_Matcher_new [where ?n0.0 = n]) (simp_all add: n_def)
  moreover have "n \<le> length vs + 1" by (simp add: n_def)
  moreover have "done (iterate_rounds n ?M)" by (simp add: iterate_rounds_done n_def)
  moreover have "map currentCandidate (wrappedProfiles (iterate_rounds j ?M))
        = replicate (length ps) (min j (length vs))"
    using iterate_rounds_after_rounds [of ps vs j prefers 0]
    by (auto simp: after_rounds_def in_range_def intro!: nth_equalityI)
  ultimately show ?thesis by blast
qed

section \<open>Double matching\<close>

text \<open>
  Claim C2 says that no item is matched twice in the result. The code does not keep
  that: in the engine \<open>contested\<close> both vacancies want what the second profile has. The
  second profile takes the first vacancy from the first profile in round one and the
  second vacancy in round two; the acceptance releases the vacancy's previous profile
  (line 144) but not the profile's previous vacancy, so the first vacancy still names the
  second profile. \<^verbatim>\<open>getMatches()\<close> returns the second profile in two pairs: both
  vacancies hold the profile index \<open>1\<close>.
\<close>

theorem getMatches_profile_matched_twice:
  "map_option fst (getMatches contested) =
     Some (Inr [((''x'', ''a''), (''q'', ''x'')), ((''x'', ''b''), (''q'', ''x''))]) \<and>
   map_option (map match \<circ> wrappedVacancies \<circ> snd) (getMatches contested) = Some [Some 1, Some 1]"
  by code_simp

text \<open>
  Claim C3 says that at the end of every round the match links are symmetric. In the
  engine \<open>contested\<close>, at the end of the second round, the vacancy at index \<open>0\<close> has
  match \<open>1\<close> while the profile at index \<open>1\<close> has match \<open>1\<close>, not \<open>0\<close>: the link of
  the first vacancy is not answered, and no later round restores it.
\<close>

theorem round_leaves_links_asymmetric:
  "map match (wrappedVacancies (iterate_rounds 2 contested)) = [Some 1, Some 1] \<and>
   map match (wrappedProfiles (iterate_rounds 2 contested)) = [None, Some 1]"
  by code_simp

section \<open>Repeated calls of getMatches\<close>

text \<open>
  Claim C9, amended. If a call of \<^verbatim>\<open>getMatches()\<close> returns a pair list, the next call
  on the same engine returns the same pair list and leaves the engine exactly as it
  found it: no round runs, the trackers are reused, and the preference function is not
  invoked (the record of its invocations is part of the engine state that stays equal).
\<close>

theorem getMatches_idempotent:
  assumes "getMatches m = Some (Inr pairs, m')"
  shows "getMatches m' = Some (Inr pairs, m')"
proof (cases "done m")
  case True
  with assms show ?thesis
    by (auto simp: getMatches_def)
next
  case False
  from getMatches_returned [OF False assms] obtain k m1 where
    run: "done m1" "evictUnmatching m1 = (None, m')"
      "collect m' (wrappedVacancies m') = Inr pairs" by blast
  from evictUnmatching_preserves(1) [OF run(2)] run(1) have "done m'" by simp
  with run(3) show ?thesis by (simp add: getMatches_def)
qed

text \<open>The engine with one profile, one vacancy and no cap returns its pair on the
  first call and on the second.\<close>

theorem getMatches_idempotent_witness:
  "map_option fst (getMatches (capped 0)) = Some (Inr [(10, 1)]) \<and>
   getMatches (snd (the (getMatches (capped 0)))) =
     Some (Inr [(10, 1)], snd (the (getMatches (capped 0)))) \<and>
   calls (snd (the (getMatches (snd (the (getMatches (capped 0))))))) =
     calls (snd (the (getMatches (capped 0))))"
proof -
  have run: "map_option fst (getMatches (capped 0)) = Some (Inr [(10, 1)])"
    by code_simp
  then obtain m' where m': "getMatches (capped 0) = Some (Inr [(10, 1)], m')"
    by (cases "getMatches (capped 0)") auto
  from getMatches_idempotent [OF m'] run m' show ?thesis by simp
qed

text \<open>Claim C9 as stated, for every engine, fails when the first call throws:
  \<^verbatim>\<open>done\<close> is then still false, so the next call runs \<^verbatim>\<open>match()\<close> again. With a cap
  of \<open>1\<close> the first call throws the non-convergence error; the second call runs one more
  round and the eviction pass, invokes the preference function, and returns the pair.\<close>

theorem getMatches_reruns_after_throw_counterexample:
  "map_option fst (getMatches (capped 1)) = Some (Inl NonConvergence) \<and>
   map_option fst (getMatches (snd (the (getMatches (capped 1))))) = Some (Inr [(10, 1)]) \<and>
   map_option (fst \<circ> snd) (match_loop 0 (snd (the (getMatches (capped 1))))) = Some 1 \<and>
   calls (snd (the (getMatches (capped 1)))) = [] \<and>
   map_option (calls \<circ> snd) (getMatches (snd (the (getMatches (capped 1))))) =
     Some [(10, Some 1, 1)]"
  by code_simp

section \<open>When the preference function is consulted\<close>

lemma index_nth: "c < length xs \<Longrightarrow> index xs c = Some (xs ! c)"
  by (simp add: index_def)

text \<open>
  Claim C4, amended. Let a profile \<open>p\<close> whose cursor \<open>c\<close> is not exhausted propose to
  the vacancy \<open>v\<close> at \<open>c\<close>. If \<open>v\<close> has no current match, the preference function is
  not invoked, whether or not \<open>p\<close> holds a match: when \<open>p\<close> holds none the pair is
  accepted at once, and when \<open>p\<close> holds one nothing is accepted, the proposal only
  advances the cursor and sets \<^verbatim>\<open>done\<close> to false. If \<open>v\<close> has a current match, the
  preference function is invoked exactly once, with that match and \<open>p\<close>: when it refuses,
  only the cursor advances; when it accepts, the previous profile of \<open>v\<close> is released,
  \<open>v\<close> and \<open>p\<close> are linked and \<^verbatim>\<open>done\<close> is set to false.
\<close>

theorem propose_cases:
  assumes pi: "profileIndex < length (wrappedProfiles m)"
    and p: "wrappedProfiles m ! profileIndex = p"
    and c: "currentCandidate p = c" "c < length (candidates p)"
    and v: "index (wrappedVacancies m) c = Some v"
  shows "(match v = None \<and> match p = None \<longrightarrow>
            propose profileIndex m =
              (None, m\<lparr>wrappedProfiles := (wrappedProfiles m)
                          [profileIndex := p\<lparr>currentCandidate := c + 1, match := Some c\<rparr>],
                       wrappedVacancies := (wrappedVacancies m)[c := v\<lparr>match := Some profileIndex\<rparr>],
                       done := False\<rparr>)) \<and>
         (match v = None \<and> match p \<noteq> None \<longrightarrow>
            propose profileIndex m =
              (None, m\<lparr>wrappedProfiles := (wrappedProfiles m)
                          [profileIndex := p\<lparr>currentCandidate := c + 1\<rparr>],
                       done := False\<rparr>)) \<and>
         (\<forall>cm. match v = Some cm \<and> cm < length (wrappedProfiles m) \<and>
               \<not> vacancyPrefersProfile m (obj v) (Some (obj (wrappedProfiles m ! cm))) (obj p) \<longrightarrow>
            propose profileIndex m =
              (None, m\<lparr>wrappedProfiles := (wrappedProfiles m)
                          [profileIndex := p\<lparr>currentCandidate := c + 1\<rparr>],
                       calls := calls m @ [(obj v, Some (obj (wrappedProfiles m ! cm)), obj p)]\<rparr>)) \<and>
         (\<forall>cm. match v = Some cm \<and> cm < length (wrappedProfiles m) \<and>
               vacancyPrefersProfile m (obj v) (Some (obj (wrappedProfiles m ! cm))) (obj p) \<longrightarrow>
            propose profileIndex m =
              (None, m\<lparr>wrappedProfiles :=
                         ((wrappedProfiles m)[cm := (wrappedProfiles m ! cm)\<lparr>match := None\<rparr>])
                           [profileIndex := p\<lparr>currentCandidate := c + 1, match := Some c\<rparr>],
                       wrappedVacancies := (wrappedVacancies m)[c := v\<lparr>match := Some profileIndex\<rparr>],
                       done := False,
                       calls := calls m @ [(obj v, Some (obj (wrappedProfiles m ! cm)), obj p)]\<rparr>))"
  using assms
  by (auto simp: propose_def nextCandidate_def call_prefers_def index_def Let_def nth_list_update
        list_update_swap split: option.splits if_splits)

text \<open>The four cases on runs of the example engines: the first proposal of
  \<open>one_two\<close> (both free), its second-round proposal (matched profile, free vacancy),
  the second proposal of \<open>contested\<close> (the vacancy prefers the newcomer) and the
  second proposal of \<open>multimatch\<close> (the vacancy refuses the newcomer).\<close>

theorem propose_cases_witness:
  "match (wrappedVacancies one_two ! 0) = None \<and> match (wrappedProfiles one_two ! 0) = None \<and>
   match (wrappedVacancies (snd (propose 0 one_two)) ! 0) = Some 0 \<and>
   match (wrappedProfiles (snd (propose 0 one_two)) ! 0) = Some 0 \<and>
   calls (snd (propose 0 one_two)) = [] \<and>
   match (wrappedVacancies (iterate_rounds 1 one_two) ! 1) = None \<and>
   match (wrappedProfiles (iterate_rounds 1 one_two) ! 0) = Some 0 \<and>
   match (wrappedVacancies (snd (propose 0 (iterate_rounds 1 one_two))) ! 1) = None \<and>
   calls (snd (propose 0 (iterate_rounds 1 one_two))) = [] \<and>
   \<not> done (snd (propose 0 (iterate_rounds 1 one_two))) \<and>
   match (wrappedVacancies (snd (propose 0 contested)) ! 0) = Some 0 \<and>
   prefers_example (''x'', ''a'') (Some (''p'', ''y'')) (''q'', ''x'') \<and>
   match (wrappedVacancies (snd (propose 1 (snd (propose 0 contested)))) ! 0) = Some 1 \<and>
   calls (snd (propose 1 (snd (propose 0 contested)))) =
     [((''x'', ''a''), Some (''p'', ''y''), (''q'', ''x''))] \<and>
   match (wrappedVacancies (snd (propose 0 multimatch)) ! 0) = Some 0 \<and>
   (prefers_example (''blue'', ''red'') (Some (''red'', ''blue'')) (''yellow'', ''green'') = False) \<and>
   match (wrappedVacancies (snd (propose 1 (snd (propose 0 multimatch)))) ! 0) = Some 0 \<and>
   calls (snd (propose 1 (snd (propose 0 multimatch)))) =
     [((''blue'', ''red''), Some (''red'', ''blue''), (''yellow'', ''green''))]"
proof -
  let ?a = "one_two"
  have a: "0 < length (wrappedProfiles ?a)" "currentCandidate (wrappedProfiles ?a ! 0) = 0"
    "0 < length (candidates (wrappedProfiles ?a ! 0))" "0 < length (wrappedVacancies ?a)"
    "match (wrappedVacancies ?a ! 0) = None" "match (wrappedProfiles ?a ! 0) = None"
    "calls ?a = []"
    by code_simp+
  from propose_cases [OF a(1) refl a(2,3) index_nth [OF a(4)]] a(5,6)
  have A: "propose 0 ?a =
      (None, ?a\<lparr>wrappedProfiles := (wrappedProfiles ?a)
                  [0 := (wrappedProfiles ?a ! 0)\<lparr>currentCandidate := 0 + 1, match := Some 0\<rparr>],
                wrappedVacancies := (wrappedVacancies ?a)[0 := (wrappedVacancies ?a ! 0)\<lparr>match := Some 0\<rparr>],
                done := False\<rparr>)"
    by blast
  let ?b = "iterate_rounds 1 one_two"
  have b: "0 < length (wrappedProfiles ?b)" "currentCandidate (wrappedProfiles ?b ! 0) = 1"
    "1 < length (candidates (wrappedProfiles ?b ! 0))" "1 < length (wrappedVacancies ?b)"
    "match (wrappedVacancies ?b ! 1) = None" "match (wrappedProfiles ?b ! 0) = Some 0"
    "calls ?b = []"
    by code_simp+
  from b(6) have b6: "match (wrappedProfiles ?b ! 0) \<noteq> None" by simp
  from propose_cases [OF b(1) refl b(2,3) index_nth [OF b(4)]] b(5) b6
  have B: "propose 0 ?b =
      (None, ?b\<lparr>wrappedProfiles := (wrappedProfiles ?b)
                  [0 := (wrappedProfiles ?b ! 0)\<lparr>currentCandidate := 1 + 1\<rparr>],
                done := False\<rparr>)"
    by blast
  let ?c = "snd (propose 0 contested)"
  have c: "1 < length (wrappedProfiles ?c)" "currentCandidate (wrappedProfiles ?c ! 1) = 0"
    "0 < length (candidates (wrappedProfiles ?c ! 1))" "0 < length (wrappedVacancies ?c)"
    "match (wrappedVacancies ?c ! 0) = Some 0" "0 < length (wrappedProfiles ?c)"
    "vacancyPrefersProfile ?c (obj (wrappedVacancies ?c ! 0)) (Some (obj (wrappedProfiles ?c ! 0)))
       (obj (wrappedProfiles ?c ! 1))"
    "calls ?c = []" "obj (wrappedVacancies ?c ! 0) = (''x'', ''a'')"
    "obj (wrappedProfiles ?c ! 0) = (''p'', ''y'')" "obj (wrappedProfiles ?c ! 1) = (''q'', ''x'')"
    by code_simp+
  from propose_cases [OF c(1) refl c(2,3) index_nth [OF c(4)]] c(5,6,7)
  have C: "propose 1 ?c =
      (None, ?c\<lparr>wrappedProfiles :=
                 ((wrappedProfiles ?c)[0 := (wrappedProfiles ?c ! 0)\<lparr>match := None\<rparr>])
                   [1 := (wrappedProfiles ?c ! 1)\<lparr>currentCandidate := 0 + 1, match := Some 0\<rparr>],
               wrappedVacancies := (wrappedVacancies ?c)[0 := (wrappedVacancies ?c ! 0)\<lparr>match := Some 1\<rparr>],
               done := False,
               calls := calls ?c @ [(obj (wrappedVacancies ?c ! 0), Some (obj (wrappedProfiles ?c ! 0)),
                                     obj (wrappedProfiles ?c ! 1))]\<rparr>)"
    by blast
  let ?d = "snd (propose 0 multimatch)"
  have d: "1 < length (wrappedProfiles ?d)" "currentCandidate (wrappedProfiles ?d ! 1) = 0"
    "0 < length (candidates (wrappedProfiles ?d ! 1))" "0 < length (wrappedVacancies ?d)"
    "match (wrappedVacancies ?d ! 0) = Some 0" "0 < length (wrappedProfiles ?d)"
    "\<not> vacancyPrefersProfile ?d (obj (wrappedVacancies ?d ! 0)) (Some (obj (wrappedProfiles ?d ! 0)))
       (obj (wrappedProfiles ?d ! 1))"
    "calls ?d = []" "obj (wrappedVacancies ?d ! 0) = (''blue'', ''red'')"
    "obj (wrappedProfiles ?d ! 0) = (''red'', ''blue'')"
    "obj (wrappedProfiles ?d ! 1) = (''yellow'', ''green'')"
    by code_simp+
  from propose_cases [OF d(1) refl d(2,3) index_nth [OF d(4)]] d(5,6,7)
  have D: "propose 1 ?d =
      (None, ?d\<lparr>wrappedProfiles := (wrappedProfiles ?d)
                  [1 := (wrappedProfiles ?d ! 1)\<lparr>currentCandidate := 0 + 1\<rparr>],
               calls := calls ?d @ [(obj (wrappedVacancies ?d ! 0), Some (obj (wrappedProfiles ?d ! 0)),
                                     obj (wrappedProfiles ?d ! 1))]\<rparr>)"
    by blast
  have pe: "prefers_example (''x'', ''a'') (Some (''p'', ''y'')) (''q'', ''x'')"
    "prefers_example (''blue'', ''red'') (Some (''red'', ''blue'')) (''yellow'', ''green'') = False"
    by (simp_all add: prefers_example_def)
  show ?thesis
    unfolding A B C D using a b c d pe by simp
qed

text \<open>Claim C4 as stated fails: after the first round of the engine \<open>one_two\<close> the
  profile holds the first vacancy; its next candidate is the second vacancy, which has
  no match. The proposal does not invoke the preference function, and although that
  function would accept, the second vacancy stays without a match.\<close>

theorem matched_profile_skips_predicate_counterexample:
  "match (wrappedProfiles (iterate_rounds 1 one_two) ! 0) = Some 0 \<and>
   fst (nextCandidate (wrappedProfiles (iterate_rounds 1 one_two) ! 0)) = 1 \<and>
   map_option match (index (wrappedVacancies (iterate_rounds 1 one_two)) 1) = Some None \<and>
   calls (snd (propose 0 (iterate_rounds 1 one_two))) = calls (iterate_rounds 1 one_two) \<and>
   map match (wrappedVacancies (snd (propose 0 (iterate_rounds 1 one_two)))) = [Some 0, None]"
  by code_simp

section \<open>Converged rounds\<close>

lemma propose_done:
  assumes "propose j s = (e, s')" and "done s'"
  shows "done s \<and> map match (wrappedProfiles s') = map match (wrappedProfiles s) \<and>
         map match (wrappedVacancies s') = map match (wrappedVacancies s)"
  using assms
  by (auto simp: propose_def nextCandidate_def call_prefers_def Let_def map_update map_update_same
        split: option.splits if_splits)

text \<open>
  Claim C5, amended. If a round ends with \<^verbatim>\<open>done\<close> still true, then no proposal of
  the round changed a match link: the matches of all profiles and of all vacancies are
  what they were before the round (no acceptance, no eviction on acceptance). The
  converse is not claimed: a proposal to a vacancy that has no current match sets
  \<^verbatim>\<open>done\<close> to false even when it is not accepted.
\<close>

theorem converged_round_changes_nothing:
  assumes "match_round m = (e, m')" and "done m'"
  shows "map match (wrappedProfiles m') = map match (wrappedProfiles m) \<and>
         map match (wrappedVacancies m') = map match (wrappedVacancies m)"
proof -
  let ?P = "\<lambda>s. done s \<longrightarrow>
     map match (wrappedProfiles s) = map match (wrappedProfiles m) \<and>
     map match (wrappedVacancies s) = map match (wrappedVacancies m)"
  from assms(1) have r: "forEach propose [0 ..< length (wrappedProfiles m)] (m\<lparr>done := True\<rparr>) = (e, m')"
    by (simp add: match_round_def)
  have "?P m'"
  proof (rule forEach_partial [where P = ?P, OF _ _ r])
    show "?P (m\<lparr>done := True\<rparr>)" by simp
  next
    fix j s e s'
    assume "?P s" and "propose j s = (e, s')"
    with propose_done [of j s e s'] show "?P s'" by auto
  qed
  with assms(2) show ?thesis by simp
qed

text \<open>The third round of the engine \<open>one_two\<close> finds the cursor exhausted: it
  ends with \<^verbatim>\<open>done\<close> true and changes no link.\<close>

theorem converged_round_changes_nothing_witness:
  "done (snd (match_round (iterate_rounds 2 one_two))) \<and>
   map match (wrappedProfiles (snd (match_round (iterate_rounds 2 one_two)))) =
     map match (wrappedProfiles (iterate_rounds 2 one_two)) \<and>
   map match (wrappedVacancies (snd (match_round (iterate_rounds 2 one_two)))) =
     map match (wrappedVacancies (iterate_rounds 2 one_two))"
proof -
  have d: "done (snd (match_round (iterate_rounds 2 one_two)))" by code_simp
  have r: "match_round (iterate_rounds 2 one_two) =
      (fst (match_round (iterate_rounds 2 one_two)), snd (match_round (iterate_rounds 2 one_two)))"
    by simp
  from converged_round_changes_nothing [OF r d] d show ?thesis by simp
qed

text \<open>Claim C5 as stated fails in the other direction: in the second round of the
  engine \<open>one_two\<close> the matched profile proposes to the second vacancy, which has no
  match. No link changes and the preference function is not invoked, yet the round ends
  with \<^verbatim>\<open>done\<close> false.\<close>

theorem unconverged_round_without_change_counterexample:
  "\<not> done (snd (match_round (iterate_rounds 1 one_two))) \<and>
   map match (wrappedProfiles (snd (match_round (iterate_rounds 1 one_two)))) =
     map match (wrappedProfiles (iterate_rounds 1 one_two)) \<and>
   map match (wrappedVacancies (snd (match_round (iterate_rounds 1 one_two)))) =
     map match (wrappedVacancies (iterate_rounds 1 one_two)) \<and>
   calls (snd (match_round (iterate_rounds 1 one_two))) = calls (iterate_rounds 1 one_two)"
  by code_simp

end
